theory Spec2Isabelle
  imports Complex_Main
begin

section \<open>The task graph of NeuroPlan: graph.py\<close>

text \<open>
  The module extracts links between tasks (\<open>find_links\<close>), positions the tasks with a
  force-directed simulation (\<open>force_layout\<close>) and rasterises the result on a character
  grid (\<open>draw_line\<close>, \<open>render_to_grid\<close>); \<open>generate_ascii_graph\<close> chains the three.

  Conventions of the embedding:
  \<^item> Python's \<open>float\<close> is modelled by \<open>real\<close>: rounding, overflow and NaN are abstracted
    away, every other behaviour (the order of the updates, the clamps, the truncation by
    \<open>int()\<close>) is kept;
  \<^item> a \<open>dict\<close> is an association list in insertion order;
  \<^item> an exception is a value \<open>Inl e\<close> of the result;
  \<^item> the \<open>while True\<close> loop of \<open>draw_line\<close> is a partial function: not returning is
    \<open>None\<close>.
\<close>

datatype py_error = ValueError | ZeroDivisionError | IndexError

subsection \<open>Tasks (task_manager.py, the fields graph.py reads)\<close>

record task =
  title :: string
  task_id :: string
  description :: string
  parent_id :: "string option"

type_synonym edge = "string \<times> string"

subsection \<open>Dictionaries in insertion order\<close>

text \<open>\<open>d[k] = v\<close>: an existing key keeps its place, a new key goes to the end.\<close>

fun dict_set :: "'k \<Rightarrow> 'v \<Rightarrow> ('k \<times> 'v) list \<Rightarrow> ('k \<times> 'v) list" where
  "dict_set k v [] = [(k, v)]"
| "dict_set k v ((k', v') # d) = (if k' = k then (k, v) # d else (k', v') # dict_set k v d)"

text \<open>In-place change of the value stored under a key (the key is known to be there).\<close>

definition dict_upd :: "'k \<Rightarrow> ('v \<Rightarrow> 'v) \<Rightarrow> ('k \<times> 'v) list \<Rightarrow> ('k \<times> 'v) list" where
  "dict_upd k f d = map (\<lambda>(k', v). if k' = k then (k', f v) else (k', v)) d"

subsection \<open>find_links\<close>

text \<open>
  The pattern \<open>\[\[([a-f0-9\-]+)\]\]\<close> and \<open>findall\<close>: two opening brackets, a non-empty
  run of characters of the class, two closing brackets. The class holds no bracket, so the
  greedy run is the only candidate. \<open>findall\<close> returns the groups of the non-overlapping
  matches from left to right; the counter is the number of characters of the last match
  that are still to be passed over.
\<close>

definition is_id_char :: "char \<Rightarrow> bool" where
  "is_id_char c = (c \<in> set ''abcdef0123456789-'')"

definition match_here :: "string \<Rightarrow> string option" where
  "match_here s =
     (if take 2 s = ''[['' then
        (let ident = takeWhile is_id_char (drop 2 s);
             rest = dropWhile is_id_char (drop 2 s)
         in if ident \<noteq> [] \<and> take 2 rest = '']]'' then Some ident else None)
      else None)"

fun findall_from :: "nat \<Rightarrow> string \<Rightarrow> string list" where
  "findall_from n [] = []"
| "findall_from (Suc n) (c # cs) = findall_from n cs"
| "findall_from 0 (c # cs) =
     (case match_here (c # cs) of
        Some ident \<Rightarrow> ident # findall_from (length ident + 3) cs
      | None \<Rightarrow> findall_from 0 cs)"

definition findall :: "string \<Rightarrow> string list" where
  "findall s = findall_from 0 s"

text \<open>The links one task contributes, in the order of the appends.\<close>

definition task_links :: "string set \<Rightarrow> task \<Rightarrow> edge list" where
  "task_links task_ids t =
     map (\<lambda>target_id. (task_id t, target_id))
       (filter (\<lambda>target_id. target_id \<in> task_ids \<and> task_id t \<noteq> target_id)
          (findall (description t)))
     @ (case parent_id t of
          None \<Rightarrow> []
        | Some p \<Rightarrow> if p \<noteq> [] \<and> p \<in> task_ids then [(task_id t, p)] else [])"

text \<open>
  \<open>list(set(links))\<close> keeps one copy of every tuple; the order in which a Python set is
  listed is not specified, the model lists the tuples in the order of \<open>remdups\<close>.
\<close>

definition find_links :: "task list \<Rightarrow> edge list" where
  "find_links tasks =
     (let task_ids = set (map task_id tasks)
      in remdups (concat (map (task_links task_ids) tasks)))"

subsection \<open>force_layout\<close>

text \<open>
  A node is the inner dictionary of \<open>nodes\<close>. The keys \<open>dx\<close> and \<open>dy\<close> do not exist
  before the first repulsion pass, which sets them for every node before anything reads
  them; the record carries them from the start.
\<close>

record node =
  n_title :: string
  n_x :: real
  n_y :: real
  n_dx :: real
  n_dy :: real

type_synonym nodes = "(string \<times> node) list"

text \<open>
  The body of the inner loop of the repulsion pass, for the node \<open>node1\<close> stored under
  \<open>i\<close> and one item \<open>(j, node2)\<close>.
\<close>

definition repulsion_step :: "real \<Rightarrow> string \<Rightarrow> node \<Rightarrow> string \<times> node \<Rightarrow> node" where
  "repulsion_step k i node1 item =
     (case item of (j, node2) \<Rightarrow>
        if i \<noteq> j then
          (let dx = n_x node1 - n_x node2;
               dy = n_y node1 - n_y node2;
               distance = sqrt (dx\<^sup>2 + dy\<^sup>2) + 0.01
           in if distance > 0 then
                (let force = k\<^sup>2 / distance
                 in node1\<lparr>n_dx := n_dx node1 + dx / distance * force,
                          n_dy := n_dy node1 + dy / distance * force\<rparr>)
              else node1)
        else node1)"

text \<open>
  The repulsion pass. It writes only \<open>dx\<close> and \<open>dy\<close> and reads only \<open>x\<close> and \<open>y\<close>, so
  the inner loop may read the other nodes from the dictionary as it was before the pass.
\<close>

definition repulsive_forces :: "real \<Rightarrow> nodes \<Rightarrow> nodes" where
  "repulsive_forces k ns =
     map (\<lambda>(i, node1). (i, foldl (repulsion_step k i) (node1\<lparr>n_dx := 0, n_dy := 0\<rparr>) ns)) ns"

text \<open>
  The body of the attraction pass for one edge. The four updates are made in the order of
  the source, each on the dictionary the previous one left (\<open>node1\<close> and \<open>node2\<close> are the
  same object when \<open>source = target\<close>). \<open>distance**2 / k\<close> raises when \<open>k\<close> is zero.
\<close>

definition attract_edge :: "real \<Rightarrow> string option \<Rightarrow> nodes \<Rightarrow> edge \<Rightarrow> py_error + nodes" where
  "attract_edge k central_node_id ns e =
     (case e of (source, target) \<Rightarrow>
        (case map_of ns source of
           None \<Rightarrow> Inr ns
         | Some node1 \<Rightarrow>
            (case map_of ns target of
               None \<Rightarrow> Inr ns
             | Some node2 \<Rightarrow>
                (let dx = n_x node1 - n_x node2;
                     dy = n_y node1 - n_y node2;
                     distance = sqrt (dx\<^sup>2 + dy\<^sup>2) + 0.01
                 in if k = 0 then Inl ZeroDivisionError
                    else
                      (let force0 = distance\<^sup>2 / k;
                           force =
                             (if central_node_id \<noteq> None \<and> central_node_id \<noteq> Some []
                                 \<and> (Some source = central_node_id \<or> Some target = central_node_id)
                              then force0 * 2.5 else force0);
                           ns1 = dict_upd source (\<lambda>n. n\<lparr>n_dx := n_dx n - dx / distance * force\<rparr>) ns;
                           ns2 = dict_upd target (\<lambda>n. n\<lparr>n_dx := n_dx n + dx / distance * force\<rparr>) ns1;
                           ns3 = dict_upd source (\<lambda>n. n\<lparr>n_dy := n_dy n - dy / distance * force\<rparr>) ns2;
                           ns4 = dict_upd target (\<lambda>n. n\<lparr>n_dy := n_dy n + dy / distance * force\<rparr>) ns3
                       in Inr ns4)))))"

fun attractive_forces :: "real \<Rightarrow> string option \<Rightarrow> nodes \<Rightarrow> edge list \<Rightarrow> py_error + nodes" where
  "attractive_forces k central_node_id ns [] = Inr ns"
| "attractive_forces k central_node_id ns (e # es) =
     (case attract_edge k central_node_id ns e of
        Inl err \<Rightarrow> Inl err
      | Inr ns' \<Rightarrow> attractive_forces k central_node_id ns' es)"

text \<open>The body of the last loop of an iteration: pin the central node, move and clamp the others.\<close>

definition apply_force :: "int \<Rightarrow> int \<Rightarrow> string option \<Rightarrow> string \<Rightarrow> node \<Rightarrow> node" where
  "apply_force width height central_node_id node_id n =
     (if Some node_id = central_node_id then
        n\<lparr>n_x := real_of_int width / 2, n_y := real_of_int height / 2\<rparr>
      else
        (let disp_x = n_dx n * 0.01;
             disp_y = n_dy n * 0.01;
             x1 = n_x n + disp_x;
             y1 = n_y n + disp_y
         in n\<lparr>n_x := min (real_of_int (width - 1)) (max 0 x1),
               n_y := min (real_of_int (height - 1)) (max 0 y1)\<rparr>))"

definition apply_forces :: "int \<Rightarrow> int \<Rightarrow> string option \<Rightarrow> nodes \<Rightarrow> nodes" where
  "apply_forces width height central_node_id ns =
     map (\<lambda>(node_id, n). (node_id, apply_force width height central_node_id node_id n)) ns"

text \<open>One iteration of the simulation: the body of \<open>for _ in range(iterations)\<close>.\<close>

definition layout_iteration ::
  "real \<Rightarrow> int \<Rightarrow> int \<Rightarrow> string option \<Rightarrow> edge list \<Rightarrow> nodes \<Rightarrow> py_error + nodes" where
  "layout_iteration k width height central_node_id edges ns =
     (case attractive_forces k central_node_id (repulsive_forces k ns) edges of
        Inl err \<Rightarrow> Inl err
      | Inr ns' \<Rightarrow> Inr (apply_forces width height central_node_id ns'))"

fun layout_loop ::
  "nat \<Rightarrow> real \<Rightarrow> int \<Rightarrow> int \<Rightarrow> string option \<Rightarrow> edge list \<Rightarrow> nodes \<Rightarrow> py_error + nodes" where
  "layout_loop 0 k width height central_node_id edges ns = Inr ns"
| "layout_loop (Suc m) k width height central_node_id edges ns =
     (case layout_iteration k width height central_node_id edges ns of
        Inl err \<Rightarrow> Inl err
      | Inr ns' \<Rightarrow> layout_loop m k width height central_node_id edges ns')"

text \<open>
  \<open>math.sqrt\<close> raises \<open>ValueError\<close> on a negative argument; \<open>range(iterations)\<close> is empty
  for a negative count.
\<close>

definition force_layout ::
  "nodes \<Rightarrow> edge list \<Rightarrow> int \<Rightarrow> int \<Rightarrow> int \<Rightarrow> string option \<Rightarrow> py_error + nodes" where
  "force_layout ns edges width height iterations central_node_id =
     (if ns = [] then Inr []
      else
        (let q = real_of_int (width * height) / real (length ns)
         in if q < 0 then Inl ValueError
            else layout_loop (nat iterations) (sqrt q) width height central_node_id edges ns))"

subsection \<open>draw_line and render_to_grid\<close>

type_synonym grid = "char list list"

text \<open>Python's list indexing: a negative index counts from the end, anything else out of range raises.\<close>

definition py_index :: "nat \<Rightarrow> int \<Rightarrow> py_error + nat" where
  "py_index n i =
     (if 0 \<le> i \<and> i < int n then Inr (nat i)
      else if - int n \<le> i \<and> i < 0 then Inr (nat (int n + i))
      else Inl IndexError)"

definition get_cell :: "grid \<Rightarrow> int \<Rightarrow> int \<Rightarrow> py_error + char" where
  "get_cell g r c =
     (case py_index (length g) r of
        Inl err \<Rightarrow> Inl err
      | Inr r' \<Rightarrow>
         (case py_index (length (g ! r')) c of
            Inl err \<Rightarrow> Inl err
          | Inr c' \<Rightarrow> Inr (g ! r' ! c')))"

definition set_cell :: "grid \<Rightarrow> int \<Rightarrow> int \<Rightarrow> char \<Rightarrow> py_error + grid" where
  "set_cell g r c ch =
     (case py_index (length g) r of
        Inl err \<Rightarrow> Inl err
      | Inr r' \<Rightarrow>
         (case py_index (length (g ! r')) c of
            Inl err \<Rightarrow> Inl err
          | Inr c' \<Rightarrow> Inr (g[r' := (g ! r')[c' := ch]])))"

text \<open>
  The first statement of the loop of \<open>draw_line\<close>. The conjunction is evaluated from the
  left, so \<open>grid[0]\<close> is read only when the grid has a row.
\<close>

definition mark_cell :: "grid \<Rightarrow> int \<Rightarrow> int \<Rightarrow> py_error + grid" where
  "mark_cell g x1 y1 =
     (if 0 \<le> y1 \<and> y1 < int (length g) \<and> 0 \<le> x1 \<and> x1 < int (length (g ! 0)) then
        (case get_cell g y1 x1 of
           Inl err \<Rightarrow> Inl err
         | Inr ch \<Rightarrow> if ch = CHR '' '' then set_cell g y1 x1 (CHR ''.'') else Inr g)
      else Inr g)"

partial_function (option) draw_loop ::
  "int \<Rightarrow> int \<Rightarrow> int \<Rightarrow> int \<Rightarrow> int \<Rightarrow> int \<Rightarrow> grid \<Rightarrow> int \<Rightarrow> int \<Rightarrow> int \<Rightarrow> (py_error + grid) option" where
  "draw_loop dx dy sx sy x2 y2 g x1 y1 err =
     (case mark_cell g x1 y1 of
        Inl e \<Rightarrow> Some (Inl e)
      | Inr g' \<Rightarrow>
         if x1 = x2 \<and> y1 = y2 then Some (Inr g')
         else
           draw_loop dx dy sx sy x2 y2 g'
             (if 2 * err \<ge> dy then x1 + sx else x1)
             (if 2 * err \<le> dx then y1 + sy else y1)
             ((if 2 * err \<ge> dy then err + dy else err) + (if 2 * err \<le> dx then dx else 0)))"

definition draw_line :: "grid \<Rightarrow> int \<Rightarrow> int \<Rightarrow> int \<Rightarrow> int \<Rightarrow> (py_error + grid) option" where
  "draw_line g x1 y1 x2 y2 =
     (let dx = \<bar>x2 - x1\<bar>;
          dy = - \<bar>y2 - y1\<bar>;
          sx = (if x1 < x2 then 1 else - 1);
          sy = (if y1 < y2 then 1 else - 1);
          err = dx + dy
      in draw_loop dx dy sx sy x2 y2 g x1 y1 err)"

text \<open>\<open>int()\<close> of a float truncates towards zero.\<close>

definition py_int :: "real \<Rightarrow> int" where
  "py_int r = (if 0 \<le> r then \<lfloor>r\<rfloor> else \<lceil>r\<rceil>)"

fun draw_edges :: "nodes \<Rightarrow> grid \<Rightarrow> edge list \<Rightarrow> (py_error + grid) option" where
  "draw_edges ns g [] = Some (Inr g)"
| "draw_edges ns g (e # es) =
     (case e of (source, target) \<Rightarrow>
        (case map_of ns source of
           None \<Rightarrow> draw_edges ns g es
         | Some n1 \<Rightarrow>
            (case map_of ns target of
               None \<Rightarrow> draw_edges ns g es
             | Some n2 \<Rightarrow>
                (case draw_line g (py_int (n_x n1)) (py_int (n_y n1)) (py_int (n_x n2)) (py_int (n_y n2)) of
                   None \<Rightarrow> None
                 | Some (Inl err) \<Rightarrow> Some (Inl err)
                 | Some (Inr g') \<Rightarrow> draw_edges ns g' es))))"

definition node_label :: "string option \<Rightarrow> string \<Rightarrow> node \<Rightarrow> string" where
  "node_label central_node_id node_id data =
     (let is_central = (Some node_id = central_node_id);
          ttl = take 10 (n_title data)
      in if is_central then ''<'' @ ttl @ ''>'' else ''['' @ ttl @ '']'')"

text \<open>\<open>for i, char in enumerate(label)\<close>, from the index \<open>i\<close> on.\<close>

fun write_label :: "int \<Rightarrow> grid \<Rightarrow> int \<Rightarrow> int \<Rightarrow> nat \<Rightarrow> string \<Rightarrow> py_error + grid" where
  "write_label width g x y i [] = Inr g"
| "write_label width g x y i (ch # rest) =
     (if x + int i < width then
        (case set_cell g y (x + int i) ch of
           Inl err \<Rightarrow> Inl err
         | Inr g' \<Rightarrow> write_label width g' x y (Suc i) rest)
      else write_label width g x y (Suc i) rest)"

definition draw_node :: "int \<Rightarrow> int \<Rightarrow> string option \<Rightarrow> grid \<Rightarrow> string \<times> node \<Rightarrow> py_error + grid" where
  "draw_node width height central_node_id g item =
     (case item of (node_id, data) \<Rightarrow>
        (let x = py_int (n_x data);
             y = py_int (n_y data);
             label = node_label central_node_id node_id data
         in if 0 \<le> y \<and> y < height \<and> 0 \<le> x \<and> x < width - int (length label)
            then write_label width g x y 0 label
            else Inr g))"

fun draw_nodes :: "int \<Rightarrow> int \<Rightarrow> string option \<Rightarrow> grid \<Rightarrow> nodes \<Rightarrow> py_error + grid" where
  "draw_nodes width height central_node_id g [] = Inr g"
| "draw_nodes width height central_node_id g (item # items) =
     (case draw_node width height central_node_id g item of
        Inl err \<Rightarrow> Inl err
      | Inr g' \<Rightarrow> draw_nodes width height central_node_id g' items)"

definition blank_grid :: "int \<Rightarrow> int \<Rightarrow> grid" where
  "blank_grid width height = replicate (nat height) (replicate (nat width) (CHR '' ''))"

definition render_to_grid ::
  "nodes \<Rightarrow> edge list \<Rightarrow> int \<Rightarrow> int \<Rightarrow> string option \<Rightarrow> (py_error + grid) option" where
  "render_to_grid ns edges width height central_node_id =
     (case draw_edges ns (blank_grid width height) edges of
        None \<Rightarrow> None
      | Some (Inl err) \<Rightarrow> Some (Inl err)
      | Some (Inr g) \<Rightarrow> Some (draw_nodes width height central_node_id g ns))"

subsection \<open>generate_ascii_graph\<close>

text \<open>\<open>sep.join(parts)\<close>.\<close>

fun join :: "string \<Rightarrow> string list \<Rightarrow> string" where
  "join sep [] = []"
| "join sep [p] = p"
| "join sep (p # q # ps) = p @ sep @ join sep (q # ps)"

text \<open>
  \<open>hash\<close> is the interpreter's built-in; for a \<open>str\<close> its value depends on the seed the
  process was started with (\<open>PYTHONHASHSEED\<close>), so it is a parameter \<open>hsh\<close> of the model.
  Python's \<open>%\<close> with the positive modulus 10 is \<open>mod\<close>.
\<close>

definition initial_node :: "(string \<Rightarrow> int) \<Rightarrow> int \<Rightarrow> int \<Rightarrow> task \<Rightarrow> node" where
  "initial_node hsh width height t =
     \<lparr>n_title = title t,
      n_x = real_of_int width / 2 + real_of_int (hsh (task_id t) mod 10 - 5),
      n_y = real_of_int height / 2 + real_of_int (hsh (title t) mod 10 - 5),
      n_dx = 0, n_dy = 0\<rparr>"

definition nodes_map :: "(string \<Rightarrow> int) \<Rightarrow> int \<Rightarrow> int \<Rightarrow> task list \<Rightarrow> nodes" where
  "nodes_map hsh width height tasks =
     foldl (\<lambda>d t. dict_set (task_id t) (initial_node hsh width height t) d) [] tasks"

definition no_tasks_message :: string where
  "no_tasks_message = ''No tasks to build a graph from.''"

definition no_links_message :: string where
  "no_links_message = ''No links or parent-child relationships found between tasks.''"

definition generate_ascii_graph ::
  "(string \<Rightarrow> int) \<Rightarrow> task list \<Rightarrow> int \<Rightarrow> int \<Rightarrow> string option \<Rightarrow> (py_error + string) option" where
  "generate_ascii_graph hsh tasks width height central_node_id =
     (if tasks = [] then Some (Inr no_tasks_message)
      else
        (let ns = nodes_map hsh width height tasks;
             edges = find_links tasks
         in if edges = [] \<and> length tasks > 1 then Some (Inr no_links_message)
            else
              (case force_layout ns edges (width - 12) (height - 4) 100 central_node_id of
                 Inl err \<Rightarrow> Some (Inl err)
               | Inr positioned_nodes \<Rightarrow>
                  (case render_to_grid positioned_nodes edges width height central_node_id of
                     None \<Rightarrow> None
                   | Some (Inl err) \<Rightarrow> Some (Inl err)
                   | Some (Inr g) \<Rightarrow> Some (Inr (join ''\<newline>'' g))))))"

subsection \<open>Auxiliary notions for the proofs\<close>

text \<open>
  The invariant of the loop of \<open>draw_line\<close>: both remaining distances are within their
  initial values, and \<open>err\<close> is determined by them.
\<close>

definition bres_inv :: "int \<Rightarrow> int \<Rightarrow> int \<Rightarrow> int \<Rightarrow> int \<Rightarrow> int \<Rightarrow> int \<Rightarrow> int \<Rightarrow> int \<Rightarrow> bool" where
  "bres_inv dx dy sx sy x2 y2 x1 y1 err \<longleftrightarrow>
     (sx = 1 \<or> sx = - 1) \<and> (sy = 1 \<or> sy = - 1)
     \<and> 0 \<le> sx * (x2 - x1) \<and> sx * (x2 - x1) \<le> dx
     \<and> 0 \<le> sy * (y2 - y1) \<and> sy * (y2 - y1) \<le> - dy
     \<and> err = dx + dy - dy * (sx * (x2 - x1)) - dx * (sy * (y2 - y1))"

text \<open>A grid all of whose rows have \<open>w\<close> columns.\<close>

definition rect :: "nat \<Rightarrow> grid \<Rightarrow> bool" where
  "rect w g \<longleftrightarrow> (\<forall>row \<in> set g. length row = w)"

text \<open>An edge both of whose endpoints are keys of the node map.\<close>

definition edge_in_nodes :: "nodes \<Rightarrow> edge \<Rightarrow> bool" where
  "edge_in_nodes ns e = (fst e \<in> fst ` set ns \<and> snd e \<in> fst ` set ns)"

text \<open>The node stored under \<open>c\<close> sits at exactly \<open>(w / 2, h / 2)\<close>.\<close>

definition pinned :: "int \<Rightarrow> int \<Rightarrow> string \<Rightarrow> nodes \<Rightarrow> bool" where
  "pinned w h c ns \<longleftrightarrow>
     (\<exists>n. map_of ns c = Some n \<and> n_x n = real_of_int w / 2 \<and> n_y n = real_of_int h / 2)"

text \<open>The bounds \<open>0 \<le> x \<le> w - 1\<close> and \<open>0 \<le> y \<le> h - 1\<close>.\<close>

definition in_bounds :: "int \<Rightarrow> int \<Rightarrow> node \<Rightarrow> bool" where
  "in_bounds w h n \<longleftrightarrow>
     0 \<le> n_x n \<and> n_x n \<le> real_of_int (w - 1) \<and> 0 \<le> n_y n \<and> n_y n \<le> real_of_int (h - 1)"

subsection \<open>Concrete inputs\<close>

definition task_a :: task where
  "task_a = \<lparr>title = ''A'', task_id = ''a'', description = ''see [[b]]'', parent_id = None\<rparr>"

definition task_b :: task where
  "task_b = \<lparr>title = ''B'', task_id = ''b'', description = [], parent_id = Some ''a''\<rparr>"

definition task_self :: task where
  "task_self = \<lparr>title = ''S'', task_id = ''c'', description = [], parent_id = Some ''c''\<rparr>"

definition node_far :: node where
  "node_far = \<lparr>n_title = ''far away'', n_x = - 7 / 2, n_y = 90, n_dx = 0, n_dy = 0\<rparr>"

definition node_in :: node where
  "node_in = \<lparr>n_title = ''in'', n_x = 1, n_y = 1, n_dx = 0, n_dy = 0\<rparr>"

definition node_c :: node where
  "node_c = \<lparr>n_title = ''C'', n_x = 0, n_y = 0, n_dx = 0, n_dy = 0\<rparr>"

definition node_c1 :: node where
  "node_c1 = \<lparr>n_title = ''C'', n_x = 1 / 2, n_y = 1 / 2, n_dx = 0, n_dy = 0\<rparr>"

definition task_p :: task where
  "task_p = \<lparr>title = ''P'', task_id = ''a'', description = [], parent_id = None\<rparr>"

definition task_q :: task where
  "task_q = \<lparr>title = ''Q'', task_id = ''d'', description = [], parent_id = None\<rparr>"

text \<open>Three string hash functions, as three interpreter processes may have them.\<close>

definition hash_a :: "string \<Rightarrow> int" where
  "hash_a s = 0"



definition node_edge :: node where
  "node_edge = \<lparr>n_title = ''abc'', n_x = 8, n_y = 0, n_dx = 0, n_dy = 0\<rparr>"

definition node_ab :: node where
  "node_ab = \<lparr>n_title = ''ab'', n_x = 3 / 2, n_y = 0, n_dx = 0, n_dy = 0\<rparr>"

section \<open>Properties\<close>

subsection \<open>The loop of draw\_line terminates\<close>

lemma bres_x_step_room:
  assumes inv: "bres_inv dx dy sx sy x2 y2 x y err"
    and nf: "\<not> (x = x2 \<and> y = y2)" and c: "dy \<le> 2 * err"
  shows "1 \<le> sx * (x2 - x)"
proof (rule ccontr)
  assume "\<not> 1 \<le> sx * (x2 - x)"
  with inv have rx0: "sx * (x2 - x) = 0" unfolding bres_inv_def by linarith
  with inv have "x = x2" by (auto simp: bres_inv_def)
  with nf have "y \<noteq> y2" by simp
  with inv have ry1: "1 \<le> sy * (y2 - y)" by (auto simp: bres_inv_def)
  from inv rx0 have e: "err = dx + dy - dx * (sy * (y2 - y))" by (simp add: bres_inv_def)
  from inv have dx0: "0 \<le> dx" by (simp add: bres_inv_def)
  from dx0 ry1 have "0 \<le> dx * (sy * (y2 - y) - 1)" by simp
  then have "dx \<le> dx * (sy * (y2 - y))" by (simp add: algebra_simps)
  with e c have "0 \<le> dy" by simp
  with inv ry1 show False by (simp add: bres_inv_def)
qed

lemma bres_y_step_room:
  assumes inv: "bres_inv dx dy sx sy x2 y2 x y err"
    and nf: "\<not> (x = x2 \<and> y = y2)" and c: "2 * err \<le> dx"
  shows "1 \<le> sy * (y2 - y)"
proof (rule ccontr)
  assume "\<not> 1 \<le> sy * (y2 - y)"
  with inv have ry0: "sy * (y2 - y) = 0" unfolding bres_inv_def by linarith
  with inv have "y = y2" by (auto simp: bres_inv_def)
  with nf have "x \<noteq> x2" by simp
  with inv have rx1: "1 \<le> sx * (x2 - x)" by (auto simp: bres_inv_def)
  from inv ry0 have e: "err = dx + dy - dy * (sx * (x2 - x))" by (simp add: bres_inv_def)
  from inv have dy0: "0 \<le> - dy" by (simp add: bres_inv_def)
  from dy0 rx1 have "0 \<le> (- dy) * (sx * (x2 - x) - 1)" by (rule_tac mult_nonneg_nonneg) simp_all
  then have "- dy \<le> (- dy) * (sx * (x2 - x))" by (simp add: algebra_simps)
  with e c have "dx \<le> 0" by simp
  with inv rx1 show False by (simp add: bres_inv_def)
qed

lemma bres_step_inv:
  assumes inv: "bres_inv dx dy sx sy x2 y2 x y err"
    and nf: "\<not> (x = x2 \<and> y = y2)"
  shows "bres_inv dx dy sx sy x2 y2
           (if 2 * err \<ge> dy then x + sx else x)
           (if 2 * err \<le> dx then y + sy else y)
           ((if 2 * err \<ge> dy then err + dy else err) + (if 2 * err \<le> dx then dx else 0))"
proof -
  from inv have s: "sx * sx = 1" "sy * sy = 1" by (auto simp: bres_inv_def)
  have rx: "sx * (x2 - (x + sx)) = sx * (x2 - x) - 1" using s by (simp add: algebra_simps)
  have ry: "sy * (y2 - (y + sy)) = sy * (y2 - y) - 1" using s by (simp add: algebra_simps)
  note X = bres_x_step_room [OF inv nf] and Y = bres_y_step_room [OF inv nf]
  show ?thesis
    using inv X Y unfolding bres_inv_def
    by (auto simp: rx ry algebra_simps)
qed

lemma bres_step_measure:
  assumes inv: "bres_inv dx dy sx sy x2 y2 x y err"
    and nf: "\<not> (x = x2 \<and> y = y2)"
  shows "nat (sx * (x2 - (if 2 * err \<ge> dy then x + sx else x))
              + sy * (y2 - (if 2 * err \<le> dx then y + sy else y)))
         < nat (sx * (x2 - x) + sy * (y2 - y))"
proof -
  from inv have s: "sx * sx = 1" "sy * sy = 1" by (auto simp: bres_inv_def)
  have rx: "sx * (x2 - (x + sx)) = sx * (x2 - x) - 1" using s by (simp add: algebra_simps)
  have ry: "sy * (y2 - (y + sy)) = sy * (y2 - y) - 1" using s by (simp add: algebra_simps)
  note X = bres_x_step_room [OF inv nf] and Y = bres_y_step_room [OF inv nf]
  from inv have "dy \<le> 0" "0 \<le> dx" by (auto simp: bres_inv_def)
  then have "dy \<le> 2 * err \<or> 2 * err \<le> dx" by linarith
  moreover from inv have "0 \<le> sx * (x2 - x)" "0 \<le> sy * (y2 - y)" by (auto simp: bres_inv_def)
  ultimately show ?thesis using X Y by (auto simp: rx ry)
qed

lemma bres_inv_init:
  "bres_inv \<bar>x2 - x1\<bar> (- \<bar>y2 - y1\<bar>) (if x1 < x2 then 1 else - 1) (if y1 < y2 then 1 else - 1)
      x2 y2 x1 y1 (\<bar>x2 - x1\<bar> + - \<bar>y2 - y1\<bar>)"
  by (auto simp: bres_inv_def algebra_simps)



lemma rect_update: "rect w g \<Longrightarrow> length row = w \<Longrightarrow> rect w (g[r := row])"
  unfolding rect_def using set_update_subset_insert [of g r row] by auto

lemma rect_nth: "rect w g \<Longrightarrow> r < length g \<Longrightarrow> length (g ! r) = w"
  by (simp add: rect_def)

lemma set_cell_rect:
  assumes "rect w g" "0 \<le> r" "r < int (length g)" "0 \<le> c" "c < int w"
  shows "\<exists>g'. set_cell g r c ch = Inr g' \<and> length g' = length g \<and> rect w g'"
proof -
  from assms have l: "length (g ! nat r) = w" by (simp add: rect_nth)
  with assms show ?thesis
    by (simp add: set_cell_def py_index_def rect_update)
qed

lemma get_cell_rect:
  assumes "rect w g" "0 \<le> r" "r < int (length g)" "0 \<le> c" "c < int w"
  shows "\<exists>ch. get_cell g r c = Inr ch"
proof -
  from assms have l: "length (g ! nat r) = w" by (simp add: rect_nth)
  with assms show ?thesis
    by (simp add: get_cell_def py_index_def)
qed

lemma mark_cell_rect:
  assumes r: "rect w g"
  shows "\<exists>g'. mark_cell g x y = Inr g' \<and> length g' = length g \<and> rect w g'"
proof (cases "0 \<le> y \<and> y < int (length g) \<and> 0 \<le> x \<and> x < int (length (g ! 0))")
  case False
  with r show ?thesis by (auto simp: mark_cell_def)
next
  case True
  then have "0 < length g" by auto
  with r have "length (g ! 0) = w" by (simp add: rect_nth)
  with True have b: "0 \<le> y" "y < int (length g)" "0 \<le> x" "x < int w" by auto
  from get_cell_rect [OF r b] obtain ch where g: "get_cell g y x = Inr ch" by blast
  from set_cell_rect [OF r b] obtain g' where
    "set_cell g y x (CHR ''.'') = Inr g'" "length g' = length g" "rect w g'" by blast
  with g r True show ?thesis by (simp add: mark_cell_def)
qed

lemma draw_loop_rect:
  "bres_inv dx dy sx sy x2 y2 x y err \<Longrightarrow> rect w g \<Longrightarrow>
   \<exists>g'. draw_loop dx dy sx sy x2 y2 g x y err = Some (Inr g') \<and> length g' = length g \<and> rect w g'"
proof (induction "nat (sx * (x2 - x) + sy * (y2 - y))" arbitrary: g x y err rule: less_induct)
  case less
  from mark_cell_rect [OF less.prems(2), of x y] obtain g1 where
    m: "mark_cell g x y = Inr g1" and l: "length g1 = length g" and r: "rect w g1" by blast
  show ?case
  proof (cases "x = x2 \<and> y = y2")
    case True
    with m l r show ?thesis by (subst draw_loop.simps) simp
  next
    case False
    from less.hyps [OF bres_step_measure [OF less.prems(1) False]
                       bres_step_inv [OF less.prems(1) False] r]
    show ?thesis using m l r False by (subst draw_loop.simps) auto
  qed
qed

lemma draw_line_rect:
  "rect w g \<Longrightarrow> \<exists>g'. draw_line g x1 y1 x2 y2 = Some (Inr g') \<and> length g' = length g \<and> rect w g'"
  unfolding draw_line_def Let_def by (rule draw_loop_rect [OF bres_inv_init])

lemma draw_edges_rect:
  "rect w g \<Longrightarrow> \<exists>g'. draw_edges ns g es = Some (Inr g') \<and> length g' = length g \<and> rect w g'"
proof (induction es arbitrary: g)
  case Nil
  then show ?case by simp
next
  case (Cons e es)
  obtain s t where e: "e = (s, t)" by (cases e)
  show ?case
  proof (cases "map_of ns s")
    case None
    with Cons e show ?thesis by simp
  next
    case (Some n1)
    note s1 = this
    show ?thesis
    proof (cases "map_of ns t")
      case None
      with Cons e s1 show ?thesis by simp
    next
      case (Some n2)
      from draw_line_rect [OF Cons.prems, of "py_int (n_x n1)" "py_int (n_y n1)" "py_int (n_x n2)" "py_int (n_y n2)"]
      obtain g1 where d: "draw_line g (py_int (n_x n1)) (py_int (n_y n1)) (py_int (n_x n2)) (py_int (n_y n2)) = Some (Inr g1)"
        and l: "length g1 = length g" and r: "rect w g1" by blast
      from Cons.IH [OF r] l d e s1 Some show ?thesis by simp
    qed
  qed
qed

lemma write_label_rect:
  "rect (nat width) g \<Longrightarrow> 0 \<le> y \<Longrightarrow> y < int (length g) \<Longrightarrow> 0 \<le> x \<Longrightarrow>
   \<exists>g'. write_label width g x y i label = Inr g' \<and> length g' = length g \<and> rect (nat width) g'"
proof (induction label arbitrary: g i)
  case Nil
  then show ?case by simp
next
  case (Cons ch rest)
  show ?case
  proof (cases "x + int i < width")
    case False
    with Cons show ?thesis by simp
  next
    case True
    with Cons.prems have "0 \<le> x + int i" "x + int i < int (nat width)" by auto
    from set_cell_rect [OF Cons.prems(1) Cons.prems(2) Cons.prems(3) this, of ch]
    obtain g1 where s: "set_cell g y (x + int i) ch = Inr g1"
      and l: "length g1 = length g" and r: "rect (nat width) g1" by blast
    from Cons.IH [OF r, of "Suc i"] Cons.prems l s True show ?thesis by simp
  qed
qed

lemma draw_node_rect:
  "rect (nat width) g \<Longrightarrow> length g = nat height \<Longrightarrow>
   \<exists>g'. draw_node width height c g item = Inr g' \<and> length g' = length g \<and> rect (nat width) g'"
proof -
  assume r: "rect (nat width) g" and l: "length g = nat height"
  obtain node_id data where i: "item = (node_id, data)" by (cases item)
  show ?thesis
  proof (cases "0 \<le> py_int (n_y data) \<and> py_int (n_y data) < height \<and> 0 \<le> py_int (n_x data)
                 \<and> py_int (n_x data) < width - int (length (node_label c node_id data))")
    case False
    with r i show ?thesis by (auto simp: draw_node_def Let_def)
  next
    case True
    with l have "py_int (n_y data) < int (length g)" by simp
    from write_label_rect [OF r _ this, of "py_int (n_x data)" 0 "node_label c node_id data"] True i
    show ?thesis by (simp add: draw_node_def Let_def)
  qed
qed

lemma draw_nodes_rect:
  "rect (nat width) g \<Longrightarrow> length g = nat height \<Longrightarrow>
   \<exists>g'. draw_nodes width height c g ns = Inr g' \<and> length g' = length g \<and> rect (nat width) g'"
proof (induction ns arbitrary: g)
  case Nil
  then show ?case by simp
next
  case (Cons item items)
  from draw_node_rect [OF Cons.prems, of c item] obtain g1 where
    d: "draw_node width height c g item = Inr g1" and l: "length g1 = length g"
    and r: "rect (nat width) g1" by blast
  from Cons.IH [OF r] l d Cons.prems(2) show ?case by simp
qed

lemma blank_grid_rect: "rect (nat width) (blank_grid width height)"
  by (simp add: rect_def blank_grid_def)

lemma length_blank_grid: "length (blank_grid width height) = nat height"
  by (simp add: blank_grid_def)

lemma render_to_grid_total:
  "\<exists>g. render_to_grid ns edges width height c = Some (Inr g)
       \<and> length g = nat height \<and> rect (nat width) g"
proof -
  from draw_edges_rect [OF blank_grid_rect, of ns width height edges] obtain g1 where
    e: "draw_edges ns (blank_grid width height) edges = Some (Inr g1)"
    and l: "length g1 = nat height" and r: "rect (nat width) g1"
    by (auto simp: length_blank_grid)
  from draw_nodes_rect [OF r l, of c ns] l e show ?thesis
    by (auto simp: render_to_grid_def)
qed



text \<open>The line from \<open>(0, 0)\<close> to \<open>(2, 1)\<close> on a blank grid of two rows and three columns.\<close>

lemma draw_line_example:
  "draw_line (blank_grid 3 2) 0 0 2 1 = Some (Inr [''.  '', '' ..''])"
  by (simp add: draw_line_def draw_loop.simps mark_cell_def get_cell_def set_cell_def
      py_index_def blank_grid_def eval_nat_numeral)

text \<open>
  Claim C10. \<open>render_to_grid\<close> is total and never writes outside the grid: for all nodes,
  positions, edges and sizes it returns a grid (no \<open>IndexError\<close>, no divergence) of
  \<open>height\<close> rows of \<open>width\<close> columns each.
\<close>

theorem render_to_grid_in_bounds:
  "\<exists>g. render_to_grid ns edges width height central_node_id = Some (Inr g)
       \<and> length g = nat height \<and> rect (nat width) g"
  by (rule render_to_grid_total)

theorem render_to_grid_in_bounds_witness:
  "\<exists>g. render_to_grid [(''a'', node_far), (''b'', node_in)] [(''a'', ''b'')] 8 3 None = Some (Inr g)
       \<and> length g = nat 3 \<and> rect (nat 8) g"
  using render_to_grid_in_bounds [of "[(''a'', node_far), (''b'', node_in)]" "[(''a'', ''b'')]" 8 3 None] .

subsection \<open>find\_links\<close>

text \<open>
  Claim C3, as amended. \<open>find_links\<close> removes duplicates of ordered pairs: every pair
  \<open>(source, target)\<close> is returned once, and the pairs returned are exactly the links
  discovered, each in the direction of its discovery.
\<close>

theorem find_links_ordered_pairs:
  "distinct (find_links tasks)
   \<and> set (find_links tasks) = (\<Union>t \<in> set tasks. set (task_links (set (map task_id tasks)) t))"
  by (simp add: find_links_def)

theorem find_links_ordered_pairs_witness:
  "distinct (find_links [task_a, task_b])
   \<and> set (find_links [task_a, task_b])
     = (\<Union>t \<in> set [task_a, task_b]. set (task_links (set (map task_id [task_a, task_b])) t))"
  using find_links_ordered_pairs [of "[task_a, task_b]"] by simp

text \<open>
  Claim C3 as stated fails: task \<open>a\<close> references \<open>b\<close> in its description and \<open>b\<close> has
  \<open>a\<close> as its parent; both \<open>(a, b)\<close> and \<open>(b, a)\<close> are returned.
\<close>

theorem find_links_both_directions:
  "(''a'', ''b'') \<in> set (find_links [task_a, task_b])
   \<and> (''b'', ''a'') \<in> set (find_links [task_a, task_b])"
  by code_simp

text \<open>
  Claim C4. The description path excludes the scanning task's own id, the parent path
  does not: a task that is its own parent yields a self-edge.
\<close>

theorem find_links_self_parent: "find_links [task_self] = [(''c'', ''c'')]"
  by code_simp

subsection \<open>force\_layout: keys, focus node and bounds\<close>

lemma keys_dict_upd: "map fst (dict_upd k f d) = map fst d"
  by (induction d) (auto simp: dict_upd_def)

lemma keys_repulsive_forces: "map fst (repulsive_forces k ns) = map fst ns"
  by (simp add: repulsive_forces_def case_prod_unfold comp_def)

lemma keys_attract_edge:
  "attract_edge k c ns e = Inr ns' \<Longrightarrow> map fst ns' = map fst ns"
  by (auto simp: attract_edge_def Let_def keys_dict_upd split: prod.splits option.splits if_splits)

lemma keys_attractive_forces:
  "attractive_forces k c ns es = Inr ns' \<Longrightarrow> map fst ns' = map fst ns"
proof (induction es arbitrary: ns)
  case Nil
  then show ?case by simp
next
  case (Cons e es)
  then show ?case
    by (auto split: sum.splits dest: keys_attract_edge)
qed

lemma keys_apply_forces: "map fst (apply_forces w h c ns) = map fst ns"
  by (simp add: apply_forces_def case_prod_unfold comp_def)

lemma keys_layout_iteration:
  "layout_iteration k w h c es ns = Inr ns' \<Longrightarrow> map fst ns' = map fst ns"
  by (auto simp: layout_iteration_def keys_apply_forces keys_repulsive_forces
      split: sum.splits dest!: keys_attractive_forces)

lemma keys_layout_loop:
  "layout_loop m k w h c es ns = Inr ns' \<Longrightarrow> map fst ns' = map fst ns"
proof (induction m arbitrary: ns)
  case 0
  then show ?case by simp
next
  case (Suc m)
  then show ?case
    by (auto split: sum.splits dest!: keys_layout_iteration)
qed

lemma map_of_apply_forces:
  "map_of (apply_forces w h c ns) i = map_option (apply_force w h c i) (map_of ns i)"
  by (induction ns) (auto simp: apply_forces_def)

lemma in_keys_map_of: "i \<in> set (map fst ns) \<Longrightarrow> \<exists>n. map_of ns i = Some n"
  by (cases "map_of ns i") (auto simp: map_of_eq_None_iff)

lemma layout_iteration_pinned:
  assumes "c \<in> set (map fst ns)" and "layout_iteration k w h (Some c) es ns = Inr ns'"
  shows "pinned w h c ns'"
proof -
  from assms(2) obtain ns1 where
    a: "attractive_forces k (Some c) (repulsive_forces k ns) es = Inr ns1"
    and r: "ns' = apply_forces w h (Some c) ns1"
    by (auto simp: layout_iteration_def split: sum.splits)
  from keys_attractive_forces [OF a] have "map fst ns1 = map fst ns"
    by (simp add: keys_repulsive_forces)
  with assms(1) have "c \<in> set (map fst ns1)" by simp
  from in_keys_map_of [OF this] obtain n where "map_of ns1 c = Some n" by blast
  then show ?thesis
    by (simp add: pinned_def r map_of_apply_forces apply_force_def)
qed

lemma layout_loop_pinned:
  "c \<in> set (map fst ns) \<Longrightarrow> layout_loop (Suc m) k w h (Some c) es ns = Inr ns' \<Longrightarrow> pinned w h c ns'"
proof (induction m arbitrary: ns)
  case 0
  from "0.prems"(2) have "layout_iteration k w h (Some c) es ns = Inr ns'"
    by (auto split: sum.splits)
  with "0.prems"(1) show ?case by (rule layout_iteration_pinned)
next
  case (Suc m)
  from Suc.prems(2) obtain ns1 where
    i: "layout_iteration k w h (Some c) es ns = Inr ns1"
    and l: "layout_loop (Suc m) k w h (Some c) es ns1 = Inr ns'"
    by (auto split: sum.splits)
  from keys_layout_iteration [OF i] Suc.prems(1) have "c \<in> set (map fst ns1)" by simp
  from Suc.IH [OF this l] show ?case .
qed

text \<open>
  Claim C1. With a focus node \<open>c\<close> that is a key of the node map, the node stored under
  \<open>c\<close> is at exactly \<open>(width / 2, height / 2)\<close> at the end of every iteration that
  completes, whatever force was accumulated for it, and so at the end of every run of at
  least one iteration.
\<close>

theorem force_layout_focus_pinned:
  assumes "c \<in> set (map fst ns)"
  shows "(layout_iteration k width height (Some c) edges ns = Inr ns1 \<longrightarrow> pinned width height c ns1)
       \<and> (0 < iterations \<and> force_layout ns edges width height iterations (Some c) = Inr ns2
            \<longrightarrow> pinned width height c ns2)"
proof (intro conjI impI)
  assume "layout_iteration k width height (Some c) edges ns = Inr ns1"
  with assms show "pinned width height c ns1" by (rule layout_iteration_pinned)
next
  assume a: "0 < iterations \<and> force_layout ns edges width height iterations (Some c) = Inr ns2"
  then obtain m where m: "nat iterations = Suc m" by (cases "nat iterations") auto
  from assms have "ns \<noteq> []" by auto
  with a m have "layout_loop (Suc m) (sqrt (real_of_int (width * height) / real (length ns)))
      width height (Some c) edges ns = Inr ns2"
    by (auto simp: force_layout_def Let_def split: if_splits)
  with assms show "pinned width height c ns2" by (rule layout_loop_pinned)
qed

lemma apply_force_in_bounds:
  assumes "1 \<le> w" "1 \<le> h" "Some i \<noteq> c \<or> (2 \<le> w \<and> 2 \<le> h)"
  shows "in_bounds w h (apply_force w h c i n)"
  using assms by (auto simp: in_bounds_def apply_force_def Let_def min_def max_def)

lemma layout_iteration_in_bounds:
  assumes "layout_iteration k w h c es ns = Inr ns'" "(i, n) \<in> set ns'"
    "1 \<le> w" "1 \<le> h" "Some i \<noteq> c \<or> (2 \<le> w \<and> 2 \<le> h)"
  shows "in_bounds w h n"
proof -
  from assms(1) obtain ns1 where r: "ns' = apply_forces w h c ns1"
    by (auto simp: layout_iteration_def split: sum.splits)
  with assms(2) obtain n0 where "n = apply_force w h c i n0"
    by (auto simp: apply_forces_def)
  with apply_force_in_bounds [OF assms(3-5)] show ?thesis by simp
qed

lemma layout_loop_in_bounds:
  assumes "1 \<le> w" "1 \<le> h" "Some i \<noteq> c \<or> (2 \<le> w \<and> 2 \<le> h)"
  shows "layout_loop (Suc m) k w h c es ns = Inr ns' \<Longrightarrow> (i, n) \<in> set ns' \<Longrightarrow> in_bounds w h n"
proof (induction m arbitrary: ns)
  case 0
  from "0.prems"(1) have "layout_iteration k w h c es ns = Inr ns'"
    by (auto split: sum.splits)
  from layout_iteration_in_bounds [OF this "0.prems"(2) assms] show ?case .
next
  case (Suc m)
  from Suc.prems(1) obtain ns1 where
    l: "layout_loop (Suc m) k w h c es ns1 = Inr ns'"
    by (auto split: sum.splits)
  from Suc.IH [OF l Suc.prems(2)] show ?case .
qed

text \<open>
  Claim C2, as amended. After a run of at least one iteration on a canvas with
  \<open>width \<ge> 1\<close> and \<open>height \<ge> 1\<close>, every node other than the focus node is within the
  bounds; the focus node, which is not clamped, is within them when \<open>width \<ge> 2\<close> and
  \<open>height \<ge> 2\<close>.
\<close>

theorem force_layout_bounds:
  assumes "force_layout ns edges width height iterations c = Inr ns'"
    and "0 < iterations" and "(i, n) \<in> set ns'"
    and "1 \<le> width" and "1 \<le> height"
    and "Some i \<noteq> c \<or> (2 \<le> width \<and> 2 \<le> height)"
  shows "in_bounds width height n"
proof -
  from assms(2) obtain m where m: "nat iterations = Suc m" by (cases "nat iterations") auto
  from assms(1,3) have "ns \<noteq> []" by (auto simp: force_layout_def)
  with assms(1) m have "layout_loop (Suc m) (sqrt (real_of_int (width * height) / real (length ns)))
      width height c edges ns = Inr ns'"
    by (auto simp: force_layout_def Let_def split: if_splits)
  from layout_loop_in_bounds [OF assms(4-6) this assms(3)] show ?thesis .
qed

lemma layout_loop_fixpoint:
  "layout_iteration k w h c es ns = Inr ns \<Longrightarrow> layout_loop m k w h c es ns = Inr ns"
  by (induction m) auto

lemma layout_loop_unfold:
  "0 < m \<Longrightarrow> layout_loop m k w h c es ns =
     (case layout_iteration k w h c es ns of
        Inl err \<Rightarrow> Inl err
      | Inr ns' \<Rightarrow> layout_loop (m - 1) k w h c es ns')"
  by (cases m) (auto split: sum.splits)

lemma layout_iteration_unit_canvas:
  "layout_iteration k 1 1 (Some ''a'') [] [(''a'', node_c)] = Inr [(''a'', node_c1)]"
  by (simp add: layout_iteration_def repulsive_forces_def repulsion_step_def apply_forces_def
      apply_force_def node_c_def node_c1_def)

lemma layout_iteration_unit_canvas_fixed:
  "layout_iteration k 1 1 (Some ''a'') [] [(''a'', node_c1)] = Inr [(''a'', node_c1)]"
  by (simp add: layout_iteration_def repulsive_forces_def repulsion_step_def apply_forces_def
      apply_force_def node_c1_def)

text \<open>
  Claim C2 as stated fails: on a canvas of width 1 and height 1 the focus node ends at
  \<open>(1/2, 1/2)\<close>, beyond \<open>width - 1 = 0\<close>.
\<close>

theorem force_layout_focus_out_of_bounds:
  "force_layout [(''a'', node_c)] [] 1 1 100 (Some ''a'') = Inr [(''a'', node_c1)]
   \<and> \<not> in_bounds 1 1 node_c1"
proof
  show "force_layout [(''a'', node_c)] [] 1 1 100 (Some ''a'') = Inr [(''a'', node_c1)]"
    by (simp add: force_layout_def layout_loop_unfold [of 100] layout_iteration_unit_canvas
        layout_loop_fixpoint [OF layout_iteration_unit_canvas_fixed])
  show "\<not> in_bounds 1 1 node_c1" by (simp add: in_bounds_def node_c1_def)
qed

lemma force_layout_single_focus:
  "force_layout [(''a'', node_c)] [] 4 2 1 (Some ''a'')
     = Inr [(''a'', node_c\<lparr>n_x := 2, n_y := 1\<rparr>)]"
  by (simp add: force_layout_def layout_iteration_def repulsive_forces_def repulsion_step_def
      apply_forces_def apply_force_def node_c_def)

lemma layout_iteration_single_focus:
  "layout_iteration 1 4 2 (Some ''a'') [] [(''a'', node_c)]
     = Inr [(''a'', node_c\<lparr>n_x := 2, n_y := 1\<rparr>)]"
  by (simp add: layout_iteration_def repulsive_forces_def repulsion_step_def
      apply_forces_def apply_force_def node_c_def)

theorem force_layout_focus_pinned_witness:
  "''a'' \<in> set (map fst [(''a'', node_c)])
   \<and> layout_iteration 1 4 2 (Some ''a'') [] [(''a'', node_c)] = Inr [(''a'', node_c\<lparr>n_x := 2, n_y := 1\<rparr>)]
   \<and> (0::int) < 1
   \<and> force_layout [(''a'', node_c)] [] 4 2 1 (Some ''a'') = Inr [(''a'', node_c\<lparr>n_x := 2, n_y := 1\<rparr>)]
   \<and> pinned 4 2 ''a'' [(''a'', node_c\<lparr>n_x := 2, n_y := 1\<rparr>)]"
  using force_layout_focus_pinned [of "''a''" "[(''a'', node_c)]" 1 4 2 "[]"
      "[(''a'', node_c\<lparr>n_x := 2, n_y := 1\<rparr>)]" 1 "[(''a'', node_c\<lparr>n_x := 2, n_y := 1\<rparr>)]"]
    force_layout_single_focus layout_iteration_single_focus
  by simp

lemma force_layout_single_clamped:
  "force_layout [(''a'', node_far)] [] 4 2 1 None
     = Inr [(''a'', node_far\<lparr>n_x := 0, n_y := 1\<rparr>)]"
  by (simp add: force_layout_def layout_iteration_def repulsive_forces_def repulsion_step_def
      apply_forces_def apply_force_def node_far_def)

theorem force_layout_bounds_witness:
  "force_layout [(''a'', node_far)] [] 4 2 1 None = Inr [(''a'', node_far\<lparr>n_x := 0, n_y := 1\<rparr>)]
   \<and> (0::int) < 1
   \<and> (''a'', node_far\<lparr>n_x := 0, n_y := 1\<rparr>) \<in> set [(''a'', node_far\<lparr>n_x := 0, n_y := 1\<rparr>)]
   \<and> (1::int) \<le> 4 \<and> (1::int) \<le> 2 \<and> Some ''a'' \<noteq> (None :: string option)
   \<and> in_bounds 4 2 (node_far\<lparr>n_x := 0, n_y := 1\<rparr>)"
  using force_layout_bounds [of "[(''a'', node_far)]" "[]" 4 2 1 None
      "[(''a'', node_far\<lparr>n_x := 0, n_y := 1\<rparr>)]" "''a''" "node_far\<lparr>n_x := 0, n_y := 1\<rparr>"]
    force_layout_single_clamped
  by simp

subsection \<open>Edges with a missing endpoint\<close>

lemma edge_in_nodes_keys:
  "map fst ns' = map fst ns \<Longrightarrow> edge_in_nodes ns' = edge_in_nodes ns"
proof -
  assume "map fst ns' = map fst ns"
  then have "set (map fst ns') = set (map fst ns)" by simp
  then have "fst ` set ns' = fst ` set ns" by simp
  then show ?thesis by (simp add: edge_in_nodes_def fun_eq_iff)
qed

lemma attract_edge_absent:
  "\<not> edge_in_nodes ns e \<Longrightarrow> attract_edge k c ns e = Inr ns"
proof -
  assume a: "\<not> edge_in_nodes ns e"
  obtain s t where e: "e = (s, t)" by (cases e)
  with a have "map_of ns s = None \<or> map_of ns t = None"
    by (auto simp: edge_in_nodes_def map_of_eq_None_iff)
  then show ?thesis
    by (auto simp: attract_edge_def e split: option.splits)
qed

lemma attractive_forces_filter:
  "attractive_forces k c ns es = attractive_forces k c ns (filter (edge_in_nodes ns) es)"
proof (induction es arbitrary: ns)
  case Nil
  show ?case by simp
next
  case (Cons e es)
  show ?case
  proof (cases "edge_in_nodes ns e")
    case False
    with Cons [of ns] show ?thesis by (simp add: attract_edge_absent)
  next
    case True
    show ?thesis
    proof (cases "attract_edge k c ns e")
      case (Inl err)
      with True show ?thesis by simp
    next
      case (Inr ns1)
      from keys_attract_edge [OF Inr] have "edge_in_nodes ns1 = edge_in_nodes ns"
        by (rule edge_in_nodes_keys)
      with Cons [of ns1] Inr True show ?thesis by simp
    qed
  qed
qed

lemma layout_iteration_filter:
  "layout_iteration k w h c es ns = layout_iteration k w h c (filter (edge_in_nodes ns) es) ns"
proof -
  have "edge_in_nodes (repulsive_forces k ns) = edge_in_nodes ns"
    by (rule edge_in_nodes_keys) (rule keys_repulsive_forces)
  with attractive_forces_filter [of k c "repulsive_forces k ns" es]
  show ?thesis by (simp add: layout_iteration_def)
qed

lemma layout_loop_filter:
  "layout_loop m k w h c es ns = layout_loop m k w h c (filter (edge_in_nodes ns) es) ns"
proof (induction m arbitrary: ns)
  case 0
  show ?case by simp
next
  case (Suc m)
  have eq: "layout_iteration k w h c (filter (edge_in_nodes ns) es) ns
      = layout_iteration k w h c es ns"
    by (rule layout_iteration_filter [symmetric])
  show ?case
  proof (cases "layout_iteration k w h c es ns")
    case (Inl err)
    then show ?thesis by (simp add: eq)
  next
    case (Inr ns1)
    from keys_layout_iteration [OF Inr] have "edge_in_nodes ns1 = edge_in_nodes ns"
      by (rule edge_in_nodes_keys)
    with Suc [of ns1] Inr show ?thesis by (simp add: eq)
  qed
qed

lemma draw_edges_filter:
  "draw_edges ns g es = draw_edges ns g (filter (edge_in_nodes ns) es)"
proof (induction es arbitrary: g)
  case Nil
  show ?case by simp
next
  case (Cons e es)
  obtain s t where e: "e = (s, t)" by (cases e)
  show ?case
  proof (cases "edge_in_nodes ns e")
    case False
    with e have "map_of ns s = None \<or> map_of ns t = None"
      by (auto simp: edge_in_nodes_def map_of_eq_None_iff)
    with Cons [of g] False e show ?thesis by (auto split: option.splits)
  next
    case True
    with Cons e show ?thesis
      by (auto split: option.splits sum.splits)
  qed
qed

text \<open>
  Claim C7. An edge with an endpoint that is not a key of the node map is skipped by
  \<open>force_layout\<close> and by \<open>render_to_grid\<close>: the result, errors included, is the result
  on the edge list without such edges.
\<close>

theorem dangling_edges_skipped:
  "force_layout ns edges width height iterations central_node_id
     = force_layout ns (filter (edge_in_nodes ns) edges) width height iterations central_node_id
   \<and> render_to_grid ns edges width height central_node_id
     = render_to_grid ns (filter (edge_in_nodes ns) edges) width height central_node_id"
proof
  show "force_layout ns edges width height iterations central_node_id
     = force_layout ns (filter (edge_in_nodes ns) edges) width height iterations central_node_id"
    using layout_loop_filter [of "nat iterations" _ width height central_node_id edges ns]
    by (simp add: force_layout_def Let_def)
  show "render_to_grid ns edges width height central_node_id
     = render_to_grid ns (filter (edge_in_nodes ns) edges) width height central_node_id"
    using draw_edges_filter [of ns "blank_grid width height" edges]
    by (simp add: render_to_grid_def)
qed

theorem dangling_edges_skipped_witness:
  "force_layout [(''a'', node_far)] [(''a'', ''zz''), (''zz'', ''a'')] 4 2 1 None
     = force_layout [(''a'', node_far)] [] 4 2 1 None
   \<and> render_to_grid [(''a'', node_far)] [(''a'', ''zz''), (''zz'', ''a'')] 4 2 None
     = render_to_grid [(''a'', node_far)] [] 4 2 None"
  using dangling_edges_skipped [of "[(''a'', node_far)]" "[(''a'', ''zz''), (''zz'', ''a'')]" 4 2 1 None]
  by (simp add: edge_in_nodes_def)

subsection \<open>Drawing a label\<close>

lemma write_label_row:
  "rect (nat width) g \<Longrightarrow> 0 \<le> y \<Longrightarrow> y < int (length g) \<Longrightarrow> 0 \<le> x \<Longrightarrow>
   x + int i + int (length label) \<le> width \<Longrightarrow>
   write_label width g x y i label
     = Inr (g[nat y := take (nat x + i) (g ! nat y) @ label
                        @ drop (nat x + i + length label) (g ! nat y)])"
proof (induction label arbitrary: g i)
  case Nil
  then show ?case by simp
next
  case (Cons ch rest)
  let ?row = "g ! nat y"
  let ?n = "nat x + i"
  from Cons.prems have ylt: "nat y < length g" by simp
  with Cons.prems(1) have len: "length ?row = nat width" by (simp add: rect_nth)
  from Cons.prems have n: "?n < length ?row" "nat (x + int i) = ?n" using len by auto
  let ?g1 = "g[nat y := ?row[?n := ch]]"
  from Cons.prems n len ylt have s: "set_cell g y (x + int i) ch = Inr ?g1"
    by (simp add: set_cell_def py_index_def)
  from Cons.prems(1) len have r1: "rect (nat width) ?g1" by (simp add: rect_update)
  from Cons.prems have p: "y < int (length ?g1)" "x + int (Suc i) + int (length rest) \<le> width" by auto
  from Cons.IH [OF r1 Cons.prems(2) p(1) Cons.prems(4) p(2)]
  have "write_label width ?g1 x y (Suc i) rest
     = Inr (?g1[nat y := take (nat x + Suc i) (?g1 ! nat y) @ rest
                        @ drop (nat x + Suc i + length rest) (?g1 ! nat y)])" .
  moreover have "?g1 ! nat y = ?row[?n := ch]" using ylt by simp
  moreover have "take (nat x + Suc i) (?row[?n := ch]) = take ?n ?row @ [ch]"
    using n(1) by (simp add: take_Suc_conv_app_nth)
  moreover have "drop (nat x + Suc i + length rest) (?row[?n := ch])
      = drop (?n + length (ch # rest)) ?row" by simp
  ultimately have "write_label width ?g1 x y (Suc i) rest
     = Inr (g[nat y := take ?n ?row @ (ch # rest) @ drop (?n + length (ch # rest)) ?row])"
    by simp
  with s Cons.prems show ?case by simp
qed

text \<open>
  Claim C5, as amended. On a grid of \<open>height\<close> rows of \<open>width\<close> columns, a node is
  drawn only when its truncated position satisfies \<open>0 \<le> y < height\<close> and
  \<open>0 \<le> x < width - len(label)\<close>; then the whole label replaces the cells
  \<open>x, \<dots>, x + len(label) - 1\<close> of row \<open>y\<close>, whatever they held, and nothing else changes.
  Otherwise the node draws nothing.
\<close>

theorem draw_node_label:
  assumes "rect (nat width) g" and "length g = nat height"
  shows "draw_node width height c g (node_id, data) =
     (let x = py_int (n_x data); y = py_int (n_y data); label = node_label c node_id data
      in if 0 \<le> y \<and> y < height \<and> 0 \<le> x \<and> x < width - int (length label)
         then Inr (g[nat y := take (nat x) (g ! nat y) @ label
                               @ drop (nat x + length label) (g ! nat y)])
         else Inr g)"
proof -
  let ?x = "py_int (n_x data)" and ?y = "py_int (n_y data)" and ?l = "node_label c node_id data"
  show ?thesis
  proof (cases "0 \<le> ?y \<and> ?y < height \<and> 0 \<le> ?x \<and> ?x < width - int (length ?l)")
    case False
    then show ?thesis by (auto simp: draw_node_def Let_def)
  next
    case True
    with assms(2) have "?y < int (length g)" "?x + int 0 + int (length ?l) \<le> width" by auto
    from write_label_row [OF assms(1) _ this(1) _ this(2)] True
    show ?thesis by (simp add: draw_node_def Let_def)
  qed
qed

theorem draw_node_label_witness:
  "rect (nat 8) [''........''] \<and> length [''........''] = nat 1
   \<and> draw_node 8 1 None [''........''] (''a'', node_ab) = Inr [''.[ab]...'']"
  using draw_node_label [of 8 "[''........'']" 1 None "''a''" node_ab]
  by (simp add: rect_def node_ab_def py_int_def node_label_def)

text \<open>
  Claim C5 as stated fails: on a grid of width 10 the label \<open>[abc]\<close> of a node at
  \<open>(8, 0)\<close> would have its prefix \<open>[a\<close> in columns 8 and 9; nothing is drawn.
\<close>

theorem label_not_clipped:
  "render_to_grid [(''a'', node_edge)] [] 10 1 None = Some (Inr [''          ''])"
  by (simp add: render_to_grid_def blank_grid_def draw_node_def node_label_def node_edge_def
      py_int_def eval_nat_numeral)

subsection \<open>generate\_ascii\_graph\<close>

lemma attract_edge_returns:
  "k \<noteq> 0 \<Longrightarrow> \<exists>ns'. attract_edge k c ns e = Inr ns'"
  by (cases e) (simp add: attract_edge_def Let_def split: option.splits)

lemma attractive_forces_returns:
  "k \<noteq> 0 \<Longrightarrow> \<exists>ns'. attractive_forces k c ns es = Inr ns'"
proof (induction es arbitrary: ns)
  case Nil
  show ?case by simp
next
  case (Cons e es)
  from attract_edge_returns [OF Cons.prems, of c ns e] obtain ns1 where
    "attract_edge k c ns e = Inr ns1" by blast
  with Cons.IH [OF Cons.prems, of ns1] show ?case by simp
qed

lemma layout_iteration_returns:
  "k \<noteq> 0 \<Longrightarrow> \<exists>ns'. layout_iteration k w h c es ns = Inr ns'"
  using attractive_forces_returns [of k c "repulsive_forces k ns" es]
  by (auto simp: layout_iteration_def)

lemma layout_loop_returns:
  "k \<noteq> 0 \<Longrightarrow> \<exists>ns'. layout_loop m k w h c es ns = Inr ns'"
proof (induction m arbitrary: ns)
  case 0
  show ?case by simp
next
  case (Suc m)
  from layout_iteration_returns [OF Suc.prems, of w h c es ns] obtain ns1 where
    "layout_iteration k w h c es ns = Inr ns1" by blast
  with Suc.IH [OF Suc.prems, of ns1] show ?case by simp
qed

lemma force_layout_returns:
  assumes "0 < width * height"
  shows "\<exists>ns'. force_layout ns es width height iterations c = Inr ns'"
proof (cases "ns = []")
  case True
  then show ?thesis by (simp add: force_layout_def)
next
  case False
  let ?q = "real_of_int (width * height) / real (length ns)"
  from assms have p: "0 < real_of_int (width * height)" by (simp only: of_int_0_less_iff)
  from False have l: "0 < real (length ns)" by simp
  from divide_pos_pos [OF p l] have q: "0 < ?q" .
  from real_sqrt_gt_zero [OF q] have "sqrt ?q \<noteq> 0" by linarith
  from layout_loop_returns [OF this] obtain ns' where
    lo: "layout_loop (nat iterations) (sqrt ?q) width height c es ns = Inr ns'" by blast
  from q have nq: "\<not> ?q < 0" by linarith
  show ?thesis
    unfolding force_layout_def Let_def if_not_P [OF False] if_not_P [OF nq]
    by (rule exI) (rule lo)
qed

lemma generate_ascii_graph_grid:
  assumes "tasks \<noteq> []" and "\<not> (find_links tasks = [] \<and> 1 < length tasks)"
    and "0 < (width - 12) * (height - 4)"
  shows "\<exists>g. generate_ascii_graph hsh tasks width height c = Some (Inr (join ''\<newline>'' g))
            \<and> length g = nat height \<and> rect (nat width) g"
proof -
  from force_layout_returns [OF assms(3)] obtain ns' where
    f: "force_layout (nodes_map hsh width height tasks) (find_links tasks)
          (width - 12) (height - 4) 100 c = Inr ns'" by blast
  from render_to_grid_total [of ns' "find_links tasks" width height c] obtain g where
    "render_to_grid ns' (find_links tasks) width height c = Some (Inr g)"
    "length g = nat height" "rect (nat width) g" by blast
  with f assms(1,2) show ?thesis
    by (auto simp: generate_ascii_graph_def Let_def)
qed

text \<open>
  Claim C6, as amended. No task: the first message. Tasks, no edge at all and more than one
  task: the second message. In every other case, on a canvas with
  \<open>(width - 12) * (height - 4) > 0\<close>, the result is the joined rows of a grid of
  \<open>height\<close> rows of \<open>width\<close> columns.
\<close>

theorem generate_ascii_graph_cases:
  "(tasks = [] \<longrightarrow>
      generate_ascii_graph hsh tasks width height c = Some (Inr no_tasks_message))
   \<and> (tasks \<noteq> [] \<and> find_links tasks = [] \<and> 1 < length tasks \<longrightarrow>
      generate_ascii_graph hsh tasks width height c = Some (Inr no_links_message))
   \<and> (tasks \<noteq> [] \<and> \<not> (find_links tasks = [] \<and> 1 < length tasks)
        \<and> 0 < (width - 12) * (height - 4) \<longrightarrow>
      (\<exists>g. generate_ascii_graph hsh tasks width height c = Some (Inr (join ''\<newline>'' g))
           \<and> length g = nat height \<and> rect (nat width) g))"
proof (intro conjI impI)
  assume "tasks = []"
  then show "generate_ascii_graph hsh tasks width height c = Some (Inr no_tasks_message)"
    by (simp add: generate_ascii_graph_def)
next
  assume "tasks \<noteq> [] \<and> find_links tasks = [] \<and> 1 < length tasks"
  then show "generate_ascii_graph hsh tasks width height c = Some (Inr no_links_message)"
    by (simp add: generate_ascii_graph_def Let_def)
next
  assume "tasks \<noteq> [] \<and> \<not> (find_links tasks = [] \<and> 1 < length tasks)
        \<and> 0 < (width - 12) * (height - 4)"
  then show "\<exists>g. generate_ascii_graph hsh tasks width height c = Some (Inr (join ''\<newline>'' g))
           \<and> length g = nat height \<and> rect (nat width) g"
    using generate_ascii_graph_grid [of tasks width height hsh c] by blast
qed

lemma find_links_parent_child: "find_links [task_p, task_b] = [(''b'', ''a'')]"
  by code_simp

lemma find_links_no_edges: "find_links [task_p, task_q] = []"
  by code_simp

theorem generate_ascii_graph_cases_witness:
  "generate_ascii_graph hash_a [] 40 10 None = Some (Inr no_tasks_message)
   \<and> [task_p, task_q] \<noteq> [] \<and> find_links [task_p, task_q] = [] \<and> 1 < length [task_p, task_q]
   \<and> generate_ascii_graph hash_a [task_p, task_q] 40 10 None = Some (Inr no_links_message)
   \<and> [task_p, task_b] \<noteq> [] \<and> \<not> (find_links [task_p, task_b] = [] \<and> 1 < length [task_p, task_b])
   \<and> (0::int) < (40 - 12) * (10 - 4)
   \<and> (\<exists>g. generate_ascii_graph hash_a [task_p, task_b] 40 10 None = Some (Inr (join ''\<newline>'' g))
          \<and> length g = nat 10 \<and> rect (nat 40) g)"
  using generate_ascii_graph_cases [of "[]" hash_a 40 10 None]
    generate_ascii_graph_cases [of "[task_p, task_q]" hash_a 40 10 None]
    generate_ascii_graph_cases [of "[task_p, task_b]" hash_a 40 10 None]
  by (simp add: find_links_parent_child find_links_no_edges)

lemma join_contains_sep:
  "2 \<le> length ps \<Longrightarrow> set sep \<subseteq> set (join sep ps)"
proof -
  assume "2 \<le> length ps"
  then obtain p q rest where "ps = p # q # rest"
    by (cases ps; cases "tl ps") auto
  then show ?thesis by auto
qed

text \<open>
  Claim C6 as stated fails: two tasks with exactly one edge between them (fewer than two
  edges, more than one task) are laid out and rendered; the second message is not
  returned.
\<close>

theorem one_edge_is_laid_out:
  "length (find_links [task_p, task_b]) < 2 \<and> 1 < length [task_p, task_b]
   \<and> generate_ascii_graph hash_a [task_p, task_b] 40 10 None \<noteq> Some (Inr no_links_message)"
proof -
  from generate_ascii_graph_grid [of "[task_p, task_b]" 40 10 hash_a None]
  obtain g where g: "generate_ascii_graph hash_a [task_p, task_b] 40 10 None
      = Some (Inr (join ''\<newline>'' g))" and l: "length g = nat 10"
    by (auto simp: find_links_parent_child)
  from l have "2 \<le> length g" by simp
  from join_contains_sep [OF this, of "''\<newline>''"]
  have "CHR ''\<newline>'' \<in> set (join ''\<newline>'' g)" by simp
  moreover have "CHR ''\<newline>'' \<notin> set no_links_message" by (simp add: no_links_message_def)
  ultimately have "join ''\<newline>'' g \<noteq> no_links_message" by auto
  with g show ?thesis by (simp add: find_links_parent_child)
qed

subsection \<open>The dependence on the string hash\<close>










end
